theory Spec2Isabelle
  imports Main
begin

section \<open>Static configuration (config.ts)\<close>

datatype Role = SUPER_ADMIN | ADMIN | MANAGER | PREMIUM_USER | USER

datatype Permission =
    PRODUCT_CREATE | PRODUCT_READ | PRODUCT_UPDATE | PRODUCT_DELETE | PRODUCT_REVIEW
  | USER_CREATE | USER_READ | USER_UPDATE | USER_DELETE

text \<open>
  The two configuration tables are objects indexed by role. A table is modelled as the
  association list of its properties: \<open>keys\<close> is \<open>Object.keys\<close> and
  \<open>lookup\<close> is the property read \<open>table[role]\<close>, which yields \<open>undefined\<close>
  (\<open>None\<close>) for a role without an entry. Role and permission identifiers are opaque
  values compared by equality. The engine below is written over arbitrary tables and
  identifier types; the shipped enums and tables are one instance.
\<close>

type_synonym ('k, 'v) table = "('k \<times> 'v list) list"

definition keys :: "('k, 'v) table \<Rightarrow> 'k list" where
  "keys t = map fst t"

definition lookup :: "('k, 'v) table \<Rightarrow> 'k \<Rightarrow> 'v list option" where
  "lookup t k = map_of t k"

definition RoleHierarchy :: "(Role, Role) table" where
  "RoleHierarchy =
     [(SUPER_ADMIN, [ADMIN]),
      (ADMIN, [MANAGER]),
      (MANAGER, [PREMIUM_USER]),
      (PREMIUM_USER, [USER]),
      (USER, [])]"

definition RoleBasedPermissions :: "(Role, Permission) table" where
  "RoleBasedPermissions =
     [(SUPER_ADMIN, []),
      (ADMIN, [PRODUCT_DELETE, USER_DELETE]),
      (MANAGER, [PRODUCT_CREATE, PRODUCT_UPDATE, USER_CREATE, USER_UPDATE, USER_READ]),
      (PREMIUM_USER, [PRODUCT_REVIEW]),
      (USER, [PRODUCT_READ])]"

section \<open>The permission manager\<close>

record ('r, 'p) PermissionContext =
  roles :: "'r list"
  permissions :: "'p list"

text \<open>
  The object state: the principal's context and the two caches (\<open>Map\<close>s from a role to a
  \<open>Set\<close>). The field \<open>context\<close> of the source is written \<open>context'\<close>.
\<close>

record ('r, 'p) PermissionManager =
  context' :: "('r, 'p) PermissionContext"
  cachedRoleHierarchy :: "'r \<rightharpoonup> 'r set"
  cachedRolePermissions :: "'r \<rightharpoonup> 'p set"

subsection \<open>computeRoleHierarchy\<close>

text \<open>
  The method mutates the \<open>visited\<close> set it is given, and the recursive calls share that
  one set. The model threads it: each function takes the set and returns it updated, next
  to the result set. \<open>computeRoleHierarchy_forEach\<close> is the body of
  \<open>inheritedRoles.forEach\<close>, run over the remaining inherited roles with the result set
  built so far.
\<close>

function computeRoleHierarchy :: "('r, 'r) table \<Rightarrow> 'r \<Rightarrow> 'r set \<Rightarrow> 'r set \<times> 'r set"
  and computeRoleHierarchy_forEach ::
    "('r, 'r) table \<Rightarrow> 'r list \<Rightarrow> 'r set \<Rightarrow> 'r set \<Rightarrow> 'r set \<times> 'r set"
where
  "computeRoleHierarchy H role visited =
     (if role \<in> visited then ({}, visited)
      else computeRoleHierarchy_forEach H
             (case lookup H role of Some inheritedRoles \<Rightarrow> inheritedRoles | None \<Rightarrow> [])
             {} (insert role visited))"
| "computeRoleHierarchy_forEach H [] result visited = (result, visited)"
| "computeRoleHierarchy_forEach H (inheritedRole # rest) result visited =
     (case computeRoleHierarchy H inheritedRole visited of
        (inheritedHierarchy, visited') \<Rightarrow>
          computeRoleHierarchy_forEach H rest
            (insert inheritedRole result \<union> inheritedHierarchy) visited')"
  by pat_completeness auto

text \<open>
  The recursion is nested: the set handed to the rest of the loop is the one the recursive
  call returns. That a call only ever adds to \<open>visited\<close> is shown first, on the domain
  of the function, and termination follows from it: the number of table keys not yet
  visited never grows, and drops with each key that is entered.
\<close>

lemma visited_grows_partial:
  "computeRoleHierarchy_computeRoleHierarchy_forEach_dom (Inl (H, role, visited)) \<Longrightarrow>
     visited \<subseteq> snd (computeRoleHierarchy H role visited)"
  "computeRoleHierarchy_computeRoleHierarchy_forEach_dom (Inr (H, rs, result, visited)) \<Longrightarrow>
     visited \<subseteq> snd (computeRoleHierarchy_forEach H rs result visited)"
proof (induction H role visited and H rs result visited
    rule: computeRoleHierarchy_computeRoleHierarchy_forEach.pinduct)
  case (1 H role visited)
  then show ?case
    by (auto simp: computeRoleHierarchy.psimps)
next
  case (2 H result visited)
  then show ?case
    by (simp add: computeRoleHierarchy_forEach.psimps)
next
  case (3 H inheritedRole rest result visited)
  obtain ih v' where c: "computeRoleHierarchy H inheritedRole visited = (ih, v')"
    by (cases "computeRoleHierarchy H inheritedRole visited")
  from 3(2) c have "visited \<subseteq> v'" by simp
  moreover from 3(3) [of ih v'] c
  have "v' \<subseteq> snd (computeRoleHierarchy_forEach H rest (insert inheritedRole result \<union> ih) v')"
    by simp
  ultimately show ?case
    using 3(1) c by (simp add: computeRoleHierarchy_forEach.psimps)
qed

lemma lookup_Some_key: "lookup H role = Some rs \<Longrightarrow> role \<in> set (keys H)"
  by (force simp: lookup_def keys_def dest: map_of_SomeD)

lemma lookup_None_key: "lookup H role = None \<longleftrightarrow> role \<notin> set (keys H)"
  by (simp add: lookup_def keys_def map_of_eq_None_iff)

lemma unvisited_keys_decrease:
  assumes "lookup H role = Some rs" "role \<notin> visited"
  shows "card (set (keys H) - insert role visited) < card (set (keys H) - visited)"
proof -
  from assms(1) have "role \<in> set (keys H)"
    by (rule lookup_Some_key)
  with assms(2) have "set (keys H) - insert role visited \<subset> set (keys H) - visited"
    by auto
  then show ?thesis
    by (intro psubset_card_mono) auto
qed

lemma unvisited_keys_absent:
  assumes "lookup H role = None"
  shows "set (keys H) - insert role visited = set (keys H) - visited"
proof -
  from assms have "role \<notin> set (keys H)"
    by (simp add: lookup_None_key)
  then show ?thesis by auto
qed

lemma unvisited_keys_mono:
  "visited \<subseteq> visited' \<Longrightarrow> card (set (keys H) - visited') \<le> card (set (keys H) - visited)"
  by (intro card_mono) auto

lemma computeRoleHierarchy_dom_all:
  "All (computeRoleHierarchy_computeRoleHierarchy_forEach_dom
         :: ('r, 'r) table \<times> 'r \<times> 'r set + ('r, 'r) table \<times> 'r list \<times> 'r set \<times> 'r set
              \<Rightarrow> bool)"
proof (relation "inv_image (less_than <*lex*> less_than)
      (\<lambda>x. case x of
         Inl (H, role, visited) \<Rightarrow> (card (set (keys H) - visited), Suc 0)
       | Inr (H, rs, result, visited) \<Rightarrow>
           (card (set (keys H) - visited), if rs = [] then 0 else Suc (length rs)))", goal_cases)
  case 1
  show ?case by auto
next
  case (2 H role visited)
  then show ?case
    by (cases "lookup H role") (simp_all add: unvisited_keys_decrease unvisited_keys_absent)
next
  case (3 H inheritedRole rest result visited)
  show ?case by simp
next
  case (4 H inheritedRole rest result visited x y)
  from visited_grows_partial(1) [OF 4(2)] 4(1) have "visited \<subseteq> y"
    by (metis snd_conv)
  from unvisited_keys_mono [OF this, of H] show ?case
    by auto
qed

termination computeRoleHierarchy
  by (rule computeRoleHierarchy_dom_all)

subsection \<open>computeRolePermissions\<close>

text \<open>
  The method has the same \<open>visited\<close> parameter and guard, but never calls itself: it
  reads the already cached hierarchy set of the role. \<open>grants\<close> is the optional-chained
  read \<open>RoleBasedPermissions[role]?.forEach(...)\<close>, which adds nothing for a role
  without an entry.
\<close>

definition grants :: "('r, 'p) table \<Rightarrow> 'r \<Rightarrow> 'p set" where
  "grants P role = (case lookup P role of Some ps \<Rightarrow> set ps | None \<Rightarrow> {})"

definition computeRolePermissions ::
  "('r, 'p) table \<Rightarrow> ('r \<rightharpoonup> 'r set) \<Rightarrow> 'r \<Rightarrow> 'r set \<Rightarrow> 'p set \<times> 'r set" where
  "computeRolePermissions P cache role visited =
     (if role \<in> visited then ({}, visited)
      else
        (let result = grants P role;
             result' = (case cache role of
                          None \<Rightarrow> result
                        | Some hierarchySet \<Rightarrow>
                            result \<union> (\<Union>inheritedRole\<in>hierarchySet. grants P inheritedRole))
         in (result', insert role visited)))"

subsection \<open>Construction\<close>

text \<open>
  The constructor fills the hierarchy cache for every key of the hierarchy table, then the
  permission cache for every key of the permission table; each call gets a fresh, empty
  \<open>visited\<close> set (the default parameter). The module-level tables are parameters here.
\<close>

definition new_PermissionManager ::
  "('r, 'r) table \<Rightarrow> ('r, 'p) table \<Rightarrow> ('r, 'p) PermissionContext \<Rightarrow> ('r, 'p) PermissionManager"
where
  "new_PermissionManager H P c =
     (let hierarchyCache =
            fold (\<lambda>role cache. cache(role \<mapsto> fst (computeRoleHierarchy H role {})))
              (keys H) Map.empty;
          permissionCache =
            fold (\<lambda>role cache. cache(role \<mapsto> fst (computeRolePermissions P hierarchyCache role {})))
              (keys P) Map.empty
      in \<lparr>context' = c,
          cachedRoleHierarchy = hierarchyCache,
          cachedRolePermissions = permissionCache\<rparr>)"

subsection \<open>Queries\<close>

definition hasPermissionThroughRole ::
  "('r, 'p) PermissionManager \<Rightarrow> 'r list \<Rightarrow> 'p \<Rightarrow> bool" where
  "hasPermissionThroughRole pm rs permission =
     list_ex (\<lambda>role. case cachedRolePermissions pm role of
                       None \<Rightarrow> False
                     | Some ps \<Rightarrow> permission \<in> ps) rs"

definition hasPermission :: "('r, 'p) PermissionManager \<Rightarrow> 'p \<Rightarrow> bool" where
  "hasPermission pm requiredPermission =
     (if requiredPermission \<in> set (permissions (context' pm)) then True
      else hasPermissionThroughRole pm (roles (context' pm)) requiredPermission)"

definition hasPermissions :: "('r, 'p) PermissionManager \<Rightarrow> 'p list \<Rightarrow> bool" where
  "hasPermissions pm requiredPermissions = list_all (hasPermission pm) requiredPermissions"

definition hasAnyPermission :: "('r, 'p) PermissionManager \<Rightarrow> 'p list \<Rightarrow> bool" where
  "hasAnyPermission pm requiredPermissions = list_ex (hasPermission pm) requiredPermissions"

definition hasRole :: "('r, 'p) PermissionManager \<Rightarrow> 'r \<Rightarrow> bool" where
  "hasRole pm requiredRole =
     list_ex (\<lambda>role. (case cachedRoleHierarchy pm role of
                        None \<Rightarrow> False
                      | Some hierarchySet \<Rightarrow> requiredRole \<in> hierarchySet)
                     \<or> role = requiredRole)
       (roles (context' pm))"

text \<open>
  \<open>getMaxRole\<close> is \<open>roles.reduce(f, roles[0])\<close>. The accumulator is a role or
  \<open>undefined\<close> (\<open>None\<close>): \<open>roles[0]\<close> of an empty array is \<open>undefined\<close>, and
  \<open>reduce\<close> with an initial value visits every element, the first included.
\<close>

definition maxRole_step :: "('r \<rightharpoonup> 'r set) \<Rightarrow> 'r option \<Rightarrow> 'r \<Rightarrow> 'r option" where
  "maxRole_step cache maxRole currentRole =
     (case maxRole of
        None \<Rightarrow> Some currentRole
      | Some m \<Rightarrow>
          (case cache m of
             None \<Rightarrow> Some currentRole
           | Some hierarchySet \<Rightarrow>
               if currentRole \<in> hierarchySet then Some m else Some currentRole))"

definition getMaxRole :: "('r, 'p) PermissionManager \<Rightarrow> 'r option" where
  "getMaxRole pm =
     foldl (maxRole_step (cachedRoleHierarchy pm))
       (case roles (context' pm) of [] \<Rightarrow> None | r # _ \<Rightarrow> Some r)
       (roles (context' pm))"

section \<open>Specification vocabulary\<close>

text \<open>
  The inheritance edges of a hierarchy table: \<open>(a, b)\<close> when \<open>b\<close> is listed among the
  roles \<open>a\<close> inherits from.
\<close>

definition inherits :: "('r, 'r) table \<Rightarrow> ('r \<times> 'r) set" where
  "inherits H = {(a, b). \<exists>rs. lookup H a = Some rs \<and> b \<in> set rs}"

text \<open>The closure the cache holds for a role; empty for a role without a cache entry.\<close>

definition closure_of :: "('r \<rightharpoonup> 'r set) \<Rightarrow> 'r \<Rightarrow> 'r set" where
  "closure_of cache r = (case cache r of None \<Rightarrow> {} | Some s \<Rightarrow> s)"

text \<open>
  The fold of the specification of \<open>getMaxRole\<close>: the candidate is replaced by the next
  role exactly when the candidate's closure does not contain it.
\<close>

definition maxRole_fold :: "('r \<rightharpoonup> 'r set) \<Rightarrow> 'r \<Rightarrow> 'r list \<Rightarrow> 'r" where
  "maxRole_fold cache seed rs =
     foldl (\<lambda>candidate next. if next \<in> closure_of cache candidate then candidate else next)
       seed rs"

section \<open>The hierarchy traversal\<close>

text \<open>
  What one call does to the shared \<open>visited\<close> set and what it returns. The roles a call
  newly visits are all reachable from where it started, every role inherited by a newly
  visited role is visited by the time the call returns, and the result set is exactly the
  set of roles inherited by the newly visited ones.
\<close>

lemma inheritedRoles_Image:
  "set (case lookup H role of Some inheritedRoles \<Rightarrow> inheritedRoles | None \<Rightarrow> []) = inherits H `` {role}"
  by (cases "lookup H role") (auto simp: inherits_def)

lemma computeRoleHierarchy_invariant:
  "computeRoleHierarchy H role visited = (res, visited') \<Longrightarrow>
     visited \<subseteq> visited' \<and> role \<in> visited' \<and>
     res = inherits H `` (visited' - visited) \<and>
     inherits H `` (visited' - visited) \<subseteq> visited' \<and>
     visited' \<subseteq> visited \<union> (inherits H)\<^sup>* `` {role}"
  "computeRoleHierarchy_forEach H rs result visited = (res, visited') \<Longrightarrow>
     visited \<subseteq> visited' \<and> set rs \<subseteq> visited' \<and>
     res = result \<union> set rs \<union> inherits H `` (visited' - visited) \<and>
     inherits H `` (visited' - visited) \<subseteq> visited' \<and>
     visited' \<subseteq> visited \<union> (inherits H)\<^sup>* `` set rs"
proof (induction H role visited and H rs result visited arbitrary: res visited' and res visited'
    rule: computeRoleHierarchy_computeRoleHierarchy_forEach.induct)
  case (1 H role visited)
  let ?E = "inherits H"
  let ?cs = "case lookup H role of Some inheritedRoles \<Rightarrow> inheritedRoles | None \<Rightarrow> []"
  show ?case
  proof (cases "role \<in> visited")
    case True
    with 1(2) show ?thesis by auto
  next
    case False
    with 1(2) have run: "computeRoleHierarchy_forEach H ?cs {} (insert role visited) = (res, visited')"
      by simp
    note ih = 1(1) [OF False run]
    have cs: "set ?cs = ?E `` {role}" by (rule inheritedRoles_Image)
    from ih have sub: "insert role visited \<subseteq> visited'" by blast
    then have split: "visited' - visited = insert role (visited' - insert role visited)"
      using False by auto
    have img: "?E `` (visited' - visited) = set ?cs \<union> ?E `` (visited' - insert role visited)"
      unfolding split cs by blast
    have reach: "(inherits H)\<^sup>* `` set ?cs \<subseteq> (inherits H)\<^sup>* `` {role}"
      unfolding cs by (auto intro: converse_rtrancl_into_rtrancl)
    from ih have "res = set ?cs \<union> ?E `` (visited' - insert role visited)" by simp
    moreover from ih have "set ?cs \<union> ?E `` (visited' - insert role visited) \<subseteq> visited'" by blast
    moreover from ih reach have "visited' \<subseteq> visited \<union> (inherits H)\<^sup>* `` {role}" by blast
    ultimately show ?thesis using sub img by auto
  qed
next
  case (2 H result visited)
  then show ?case by auto
next
  case (3 H inheritedRole rest result visited)
  let ?E = "inherits H"
  obtain ih v1 where c: "computeRoleHierarchy H inheritedRole visited = (ih, v1)"
    by (cases "computeRoleHierarchy H inheritedRole visited")
  with 3(3) have run:
    "computeRoleHierarchy_forEach H rest (insert inheritedRole result \<union> ih) v1 = (res, visited')"
    by simp
  note a = 3(1) [OF c]
  note b = 3(2) [OF c [symmetric] run]
  from a b have sub: "visited \<subseteq> v1" "v1 \<subseteq> visited'" by blast+
  then have split: "visited' - visited = (visited' - v1) \<union> (v1 - visited)" by auto
  have img: "?E `` (visited' - visited) = ?E `` (visited' - v1) \<union> ?E `` (v1 - visited)"
    unfolding split by blast
  have r1: "(inherits H)\<^sup>* `` {inheritedRole} \<subseteq> (inherits H)\<^sup>* `` set (inheritedRole # rest)"
    and r2: "(inherits H)\<^sup>* `` set rest \<subseteq> (inherits H)\<^sup>* `` set (inheritedRole # rest)"
    by auto
  from a b have "res = result \<union> set (inheritedRole # rest) \<union> ?E `` (visited' - visited)"
    unfolding img by auto
  moreover from a b sub have "?E `` (visited' - visited) \<subseteq> visited'"
    unfolding img by blast
  moreover from a b r1 r2 have "visited' \<subseteq> visited \<union> (inherits H)\<^sup>* `` set (inheritedRole # rest)"
    by blast
  moreover from a b have "set (inheritedRole # rest) \<subseteq> visited'" by auto
  ultimately show ?case using sub by blast
qed


lemma computeRoleHierarchy_top:
  "fst (computeRoleHierarchy H role {}) = (inherits H)\<^sup>+ `` {role}"
proof -
  let ?E = "inherits H"
  obtain res V where c: "computeRoleHierarchy H role {} = (res, V)"
    by (cases "computeRoleHierarchy H role {}")
  note inv = computeRoleHierarchy_invariant(1) [OF c]
  from inv have start: "role \<in> V" and closed: "?E `` V \<subseteq> V"
    and sound: "V \<subseteq> ?E\<^sup>* `` {role}" and res: "res = ?E `` V"
    by simp_all
  have "x \<in> V" if "(role, x) \<in> ?E\<^sup>*" for x
    using that by (induction rule: rtrancl_induct) (use start closed in blast)+
  with sound have "V = ?E\<^sup>* `` {role}" by blast
  with res have "res = ?E `` (?E\<^sup>* `` {role})" by simp
  also have "\<dots> = ?E\<^sup>+ `` {role}"
    by (simp add: trancl_unfold_right relcomp_Image)
  finally show ?thesis using c by simp
qed

text \<open>The cache built by one of the constructor's \<open>forEach\<close> loops.\<close>

lemma fold_cache_set:
  "fold (\<lambda>role cache. cache(role \<mapsto> f role)) ks m =
     (\<lambda>r. if r \<in> set ks then Some (f r) else m r)"
  by (induction ks arbitrary: m) (auto simp: fun_eq_iff)

lemma cachedRoleHierarchy_new:
  "cachedRoleHierarchy (new_PermissionManager H P c) r =
     (if r \<in> set (keys H) then Some ((inherits H)\<^sup>+ `` {r}) else None)"
  by (simp add: new_PermissionManager_def Let_def fold_cache_set computeRoleHierarchy_top
      del: computeRoleHierarchy.simps)

lemma cachedRolePermissions_new:
  "cachedRolePermissions (new_PermissionManager H P c) r =
     (if r \<in> set (keys P)
      then Some (grants P r \<union>
             (\<Union>a\<in>closure_of (cachedRoleHierarchy (new_PermissionManager H P c)) r. grants P a))
      else None)"
  by (simp add: new_PermissionManager_def Let_def fold_cache_set computeRolePermissions_def
      closure_of_def split: option.splits)

lemma context_new [simp]: "context' (new_PermissionManager H P c) = c"
  by (simp add: new_PermissionManager_def Let_def)

lemma RoleHierarchy_acyclic: "acyclic (inherits RoleHierarchy)"
  by (rule acyclicI_order [where f = "\<lambda>r. case r of
        SUPER_ADMIN \<Rightarrow> 4::nat | ADMIN \<Rightarrow> 3 | MANAGER \<Rightarrow> 2 | PREMIUM_USER \<Rightarrow> 1 | USER \<Rightarrow> 0"])
    (auto simp: inherits_def lookup_def RoleHierarchy_def split: if_splits)

section \<open>Properties of the caches\<close>

text \<open>
  C1. For an acyclic hierarchy table and a role \<open>r\<close> with an entry in it, the hierarchy
  closure cached for \<open>r\<close> at construction is exactly the set of roles reachable from
  \<open>r\<close> along one or more inheritance edges, and \<open>r\<close> itself is not in it.
\<close>

theorem cached_hierarchy_is_reachable_set:
  assumes "acyclic (inherits H)" and "r \<in> set (keys H)"
  shows "cachedRoleHierarchy (new_PermissionManager H P c) r
           = Some {x. (r, x) \<in> (inherits H)\<^sup>+}
         \<and> r \<notin> closure_of (cachedRoleHierarchy (new_PermissionManager H P c)) r"
proof -
  have img: "(inherits H)\<^sup>+ `` {r} = {x. (r, x) \<in> (inherits H)\<^sup>+}"
    by auto
  from assms(1) have "(r, r) \<notin> (inherits H)\<^sup>+"
    by (simp add: acyclic_def)
  with assms(2) show ?thesis
    by (simp add: cachedRoleHierarchy_new closure_of_def img)
qed

theorem cached_hierarchy_is_reachable_set_witness:
  "acyclic (inherits RoleHierarchy) \<and> ADMIN \<in> set (keys RoleHierarchy) \<and>
   cachedRoleHierarchy (new_PermissionManager RoleHierarchy RoleBasedPermissions
       \<lparr>roles = [USER], permissions = [PRODUCT_READ]\<rparr>) ADMIN
     = Some {x. (ADMIN, x) \<in> (inherits RoleHierarchy)\<^sup>+} \<and>
   ADMIN \<notin> closure_of (cachedRoleHierarchy (new_PermissionManager RoleHierarchy
       RoleBasedPermissions \<lparr>roles = [USER], permissions = [PRODUCT_READ]\<rparr>)) ADMIN"
proof -
  have k: "ADMIN \<in> set (keys RoleHierarchy)"
    by (simp add: keys_def RoleHierarchy_def)
  from cached_hierarchy_is_reachable_set [OF RoleHierarchy_acyclic k] RoleHierarchy_acyclic k
  show ?thesis by blast
qed

text \<open>
  C8. The cached hierarchy closures are transitive: a role in the closure of a role in the
  closure of \<open>r\<close> is in the closure of \<open>r\<close>.
\<close>

theorem cached_hierarchy_transitive:
  assumes "a \<in> closure_of (cachedRoleHierarchy (new_PermissionManager H P c)) r"
    and "b \<in> closure_of (cachedRoleHierarchy (new_PermissionManager H P c)) a"
  shows "b \<in> closure_of (cachedRoleHierarchy (new_PermissionManager H P c)) r"
proof -
  from assms(1) have ra: "(r, a) \<in> (inherits H)\<^sup>+" and kr: "r \<in> set (keys H)"
    by (auto simp: closure_of_def cachedRoleHierarchy_new split: if_splits)
  from assms(2) have ab: "(a, b) \<in> (inherits H)\<^sup>+"
    by (auto simp: closure_of_def cachedRoleHierarchy_new split: if_splits)
  from ra ab have "(r, b) \<in> (inherits H)\<^sup>+"
    by (rule trancl_trans)
  with kr show ?thesis
    by (simp add: closure_of_def cachedRoleHierarchy_new)
qed

theorem cached_hierarchy_transitive_witness:
  "MANAGER \<in> closure_of (cachedRoleHierarchy (new_PermissionManager RoleHierarchy
       RoleBasedPermissions \<lparr>roles = [USER], permissions = [PRODUCT_READ]\<rparr>)) ADMIN \<and>
   USER \<in> closure_of (cachedRoleHierarchy (new_PermissionManager RoleHierarchy
       RoleBasedPermissions \<lparr>roles = [USER], permissions = [PRODUCT_READ]\<rparr>)) MANAGER \<and>
   USER \<in> closure_of (cachedRoleHierarchy (new_PermissionManager RoleHierarchy
       RoleBasedPermissions \<lparr>roles = [USER], permissions = [PRODUCT_READ]\<rparr>)) ADMIN"
proof -
  have h1: "MANAGER \<in> closure_of (cachedRoleHierarchy (new_PermissionManager RoleHierarchy
       RoleBasedPermissions \<lparr>roles = [USER], permissions = [PRODUCT_READ]\<rparr>)) ADMIN"
    by code_simp
  have h2: "USER \<in> closure_of (cachedRoleHierarchy (new_PermissionManager RoleHierarchy
       RoleBasedPermissions \<lparr>roles = [USER], permissions = [PRODUCT_READ]\<rparr>)) MANAGER"
    by code_simp
  from cached_hierarchy_transitive [OF h1 h2] h1 h2 show ?thesis
    by blast
qed

text \<open>
  C2. For a role \<open>r\<close> with an entry in the permission table, the permission closure cached
  for \<open>r\<close> is the union of the permissions granted to \<open>r\<close> directly with those granted
  directly to every role in the cached hierarchy closure of \<open>r\<close>. So it contains the
  direct grants of \<open>r\<close>, and it contains the cached permission closure of every role in
  the hierarchy closure of \<open>r\<close>.
\<close>

theorem cached_permissions_are_union:
  assumes "pm = new_PermissionManager H P c" and "r \<in> set (keys P)"
  shows "\<exists>ps. cachedRolePermissions pm r = Some ps \<and>
           ps = grants P r \<union> (\<Union>a\<in>closure_of (cachedRoleHierarchy pm) r. grants P a) \<and>
           grants P r \<subseteq> ps \<and>
           (\<forall>a\<in>closure_of (cachedRoleHierarchy pm) r.
              \<forall>pa. cachedRolePermissions pm a = Some pa \<longrightarrow> pa \<subseteq> ps)"
proof -
  let ?hc = "cachedRoleHierarchy pm"
  let ?ps = "grants P r \<union> (\<Union>a\<in>closure_of ?hc r. grants P a)"
  from assms have eq: "cachedRolePermissions pm r = Some ?ps"
    by (simp add: cachedRolePermissions_new)
  have "pa \<subseteq> ?ps" if a: "a \<in> closure_of ?hc r" and pa: "cachedRolePermissions pm a = Some pa"
    for a pa
  proof -
    from pa assms(1) have pa_eq: "pa = grants P a \<union> (\<Union>b\<in>closure_of ?hc a. grants P b)"
      by (auto simp: cachedRolePermissions_new split: if_splits)
    have "closure_of ?hc a \<subseteq> closure_of ?hc r"
      using a unfolding assms(1)
      by (auto simp: closure_of_def cachedRoleHierarchy_new split: if_splits
          intro: trancl_trans)
    with a show ?thesis unfolding pa_eq by blast
  qed
  with eq show ?thesis by blast
qed

theorem cached_permissions_are_union_witness:
  "PREMIUM_USER \<in> set (keys RoleBasedPermissions) \<and>
   cachedRolePermissions (new_PermissionManager RoleHierarchy RoleBasedPermissions
       \<lparr>roles = [USER], permissions = [PRODUCT_READ]\<rparr>) PREMIUM_USER
     = Some {PRODUCT_REVIEW, PRODUCT_READ} \<and>
   grants RoleBasedPermissions PREMIUM_USER = {PRODUCT_REVIEW} \<and>
   closure_of (cachedRoleHierarchy (new_PermissionManager RoleHierarchy RoleBasedPermissions
       \<lparr>roles = [USER], permissions = [PRODUCT_READ]\<rparr>)) PREMIUM_USER = {USER} \<and>
   cachedRolePermissions (new_PermissionManager RoleHierarchy RoleBasedPermissions
       \<lparr>roles = [USER], permissions = [PRODUCT_READ]\<rparr>) USER = Some {PRODUCT_READ}"
proof -
  let ?pm = "new_PermissionManager RoleHierarchy RoleBasedPermissions
               \<lparr>roles = [USER], permissions = [PRODUCT_READ]\<rparr>"
  have k: "PREMIUM_USER \<in> set (keys RoleBasedPermissions)"
    by (simp add: keys_def RoleBasedPermissions_def)
  have g: "grants RoleBasedPermissions PREMIUM_USER = {PRODUCT_REVIEW}"
    by code_simp
  have h: "closure_of (cachedRoleHierarchy ?pm) PREMIUM_USER = {USER}"
    by code_simp
  have u: "grants RoleBasedPermissions USER = {PRODUCT_READ}"
    by code_simp
  have p: "cachedRolePermissions ?pm USER = Some {PRODUCT_READ}"
    by code_simp
  from cached_permissions_are_union [OF refl k, of RoleHierarchy
      "\<lparr>roles = [USER], permissions = [PRODUCT_READ]\<rparr>"]
  have "cachedRolePermissions ?pm PREMIUM_USER = Some {PRODUCT_REVIEW, PRODUCT_READ}"
    unfolding g h by (auto simp: u)
  with k g h p show ?thesis by blast
qed

text \<open>
  C6. Both closure computations terminate on every hierarchy table, cyclic ones included:
  every call of \<open>computeRoleHierarchy\<close> and of its loop lies in the domain on which the
  recursion is well-founded, and \<open>computeRolePermissions\<close> does not recurse. So
  construction completes, with an entry in each cache for every key of its table.
\<close>

theorem construction_terminates:
  "computeRoleHierarchy_computeRoleHierarchy_forEach_dom (Inl (H, role, visited)) \<and>
   computeRoleHierarchy_computeRoleHierarchy_forEach_dom (Inr (H, rs, result, visited)) \<and>
   dom (cachedRoleHierarchy (new_PermissionManager H P c)) = set (keys H) \<and>
   dom (cachedRolePermissions (new_PermissionManager H P c)) = set (keys P)"
proof -
  have "dom (cachedRoleHierarchy (new_PermissionManager H P c)) = set (keys H)"
    by (auto simp: dom_def cachedRoleHierarchy_new)
  moreover have "dom (cachedRolePermissions (new_PermissionManager H P c)) = set (keys P)"
    by (auto simp: dom_def cachedRolePermissions_new)
  ultimately show ?thesis
    using computeRoleHierarchy_dom_all by blast
qed

theorem construction_terminates_witness:
  "dom (cachedRoleHierarchy (new_PermissionManager [(ADMIN, [MANAGER]), (MANAGER, [ADMIN])]
      RoleBasedPermissions \<lparr>roles = [USER], permissions = [PRODUCT_READ]\<rparr>))
     = {ADMIN, MANAGER} \<and>
   cachedRoleHierarchy (new_PermissionManager [(ADMIN, [MANAGER]), (MANAGER, [ADMIN])]
      RoleBasedPermissions \<lparr>roles = [USER], permissions = [PRODUCT_READ]\<rparr>) ADMIN
     = Some {ADMIN, MANAGER}"
proof -
  have v: "cachedRoleHierarchy (new_PermissionManager [(ADMIN, [MANAGER]), (MANAGER, [ADMIN])]
      RoleBasedPermissions \<lparr>roles = [USER], permissions = [PRODUCT_READ]\<rparr>) ADMIN
     = Some {ADMIN, MANAGER}"
    by code_simp
  from construction_terminates [of "[(ADMIN, [MANAGER]), (MANAGER, [ADMIN])]" ADMIN "{}" "[]" "{}"
      RoleBasedPermissions "\<lparr>roles = [USER], permissions = [PRODUCT_READ]\<rparr>"] v
  show ?thesis by (simp add: keys_def)
qed

section \<open>Properties of the queries\<close>

lemma hasPermissionThroughRole_iff:
  "hasPermissionThroughRole pm rs p \<longleftrightarrow>
     (\<exists>role\<in>set rs. \<exists>ps. cachedRolePermissions pm role = Some ps \<and> p \<in> ps)"
  by (auto simp: hasPermissionThroughRole_def list_ex_iff split: option.splits)

lemma hasPermission_iff:
  "hasPermission pm p \<longleftrightarrow>
     p \<in> set (permissions (context' pm)) \<or>
     (\<exists>role\<in>set (roles (context' pm)). \<exists>ps. cachedRolePermissions pm role = Some ps \<and> p \<in> ps)"
  by (simp add: hasPermission_def hasPermissionThroughRole_iff)

lemma grants_in_table: "p \<in> grants P r \<Longrightarrow> \<exists>ps. (r, ps) \<in> set P \<and> p \<in> set ps"
  by (auto simp: grants_def lookup_def split: option.splits dest: map_of_SomeD)

lemma cached_permission_granted:
  assumes "cachedRolePermissions (new_PermissionManager H P c) role = Some ps" and "p \<in> ps"
  shows "\<exists>r qs. (r, qs) \<in> set P \<and> p \<in> set qs"
proof -
  from assms obtain a where "p \<in> grants P a"
    by (auto simp: cachedRolePermissions_new split: if_splits)
  then show ?thesis by (blast dest: grants_in_table)
qed

text \<open>
  C3. \<open>hasPermission p\<close> is true exactly when \<open>p\<close> is in the principal's own permission
  list or some role of the principal has \<open>p\<close> in its cached permission closure. The
  function is total: no branch of it raises. After construction, a permission that no
  entry of the permission table grants and that the principal does not hold directly is
  refused.
\<close>

theorem hasPermission_decision:
  "(hasPermission pm p \<longleftrightarrow>
      p \<in> set (permissions (context' pm)) \<or>
      (\<exists>role\<in>set (roles (context' pm)).
         \<exists>ps. cachedRolePermissions pm role = Some ps \<and> p \<in> ps)) \<and>
   ((\<forall>(r, qs)\<in>set P. q \<notin> set qs) \<and> q \<notin> set (permissions c) \<longrightarrow>
      \<not> hasPermission (new_PermissionManager H P c) q)"
proof (intro conjI impI)
  show "hasPermission pm p \<longleftrightarrow>
      p \<in> set (permissions (context' pm)) \<or>
      (\<exists>role\<in>set (roles (context' pm)).
         \<exists>ps. cachedRolePermissions pm role = Some ps \<and> p \<in> ps)"
    by (rule hasPermission_iff)
next
  assume a: "(\<forall>(r, qs)\<in>set P. q \<notin> set qs) \<and> q \<notin> set (permissions c)"
  show "\<not> hasPermission (new_PermissionManager H P c) q"
  proof
    assume "hasPermission (new_PermissionManager H P c) q"
    with a obtain role ps
      where "cachedRolePermissions (new_PermissionManager H P c) role = Some ps" "q \<in> ps"
      by (auto simp: hasPermission_iff)
    then obtain r qs where "(r, qs) \<in> set P" "q \<in> set qs"
      using cached_permission_granted by fast
    with a show False by blast
  qed
qed

theorem hasPermission_decision_witness:
  "hasPermission (new_PermissionManager RoleHierarchy RoleBasedPermissions
       \<lparr>roles = [MANAGER], permissions = []\<rparr>) PRODUCT_READ \<and>
   cachedRolePermissions (new_PermissionManager RoleHierarchy RoleBasedPermissions
       \<lparr>roles = [MANAGER], permissions = []\<rparr>) MANAGER
     = Some {PRODUCT_CREATE, PRODUCT_UPDATE, USER_CREATE, USER_UPDATE, USER_READ,
             PRODUCT_REVIEW, PRODUCT_READ} \<and>
   USER_DELETE \<notin> set [PRODUCT_READ] \<and> USER_DELETE \<notin> set [PRODUCT_REVIEW] \<and>
   \<not> hasPermission (new_PermissionManager RoleHierarchy [(USER, [PRODUCT_READ])]
       \<lparr>roles = [USER], permissions = [PRODUCT_REVIEW]\<rparr>) USER_DELETE"
proof -
  let ?pm = "new_PermissionManager RoleHierarchy RoleBasedPermissions
       \<lparr>roles = [MANAGER], permissions = []\<rparr>"
  have m: "cachedRolePermissions ?pm MANAGER
     = Some {PRODUCT_CREATE, PRODUCT_UPDATE, USER_CREATE, USER_UPDATE, USER_READ,
             PRODUCT_REVIEW, PRODUCT_READ}"
    by code_simp
  have n: "(\<forall>(r, qs)\<in>set [(USER, [PRODUCT_READ])]. USER_DELETE \<notin> set qs) \<and>
      USER_DELETE \<notin> set (permissions \<lparr>roles = [USER], permissions = [PRODUCT_REVIEW]\<rparr>)"
    by simp
  from hasPermission_decision [of ?pm PRODUCT_READ "[(USER, [PRODUCT_READ])]" USER_DELETE
       "\<lparr>roles = [USER], permissions = [PRODUCT_REVIEW]\<rparr>" RoleHierarchy] m n
  show ?thesis by simp
qed

lemma in_closure_of:
  "(case cache role of None \<Rightarrow> False | Some hs \<Rightarrow> r \<in> hs) \<longleftrightarrow> r \<in> closure_of cache role"
  by (simp add: closure_of_def split: option.split)

lemma in_closure_of_Some:
  "r \<in> closure_of cache role \<longleftrightarrow> (\<exists>hs. cache role = Some hs \<and> r \<in> hs)"
  by (simp add: closure_of_def split: option.split)

lemma hasRole_iff:
  "hasRole pm r \<longleftrightarrow>
     r \<in> set (roles (context' pm)) \<or>
     (\<exists>role\<in>set (roles (context' pm)). r \<in> closure_of (cachedRoleHierarchy pm) role)"
  by (auto simp: hasRole_def list_ex_iff in_closure_of)

text \<open>
  C4. \<open>hasRole r\<close> is true exactly when the principal's role list contains \<open>r\<close> or
  some role in that list has \<open>r\<close> in its cached hierarchy closure. After construction, a
  role that the principal neither holds nor reaches from a held role along inheritance
  edges is refused.
\<close>

theorem hasRole_decision:
  "(hasRole pm r \<longleftrightarrow>
      r \<in> set (roles (context' pm)) \<or>
      (\<exists>role\<in>set (roles (context' pm)).
         \<exists>hs. cachedRoleHierarchy pm role = Some hs \<and> r \<in> hs)) \<and>
   (q \<notin> set (roles c) \<and> (\<forall>role\<in>set (roles c). (role, q) \<notin> (inherits H)\<^sup>+) \<longrightarrow>
      \<not> hasRole (new_PermissionManager H P c) q)"
proof (intro conjI impI)
  show "hasRole pm r \<longleftrightarrow>
      r \<in> set (roles (context' pm)) \<or>
      (\<exists>role\<in>set (roles (context' pm)).
         \<exists>hs. cachedRoleHierarchy pm role = Some hs \<and> r \<in> hs)"
    by (simp add: hasRole_iff in_closure_of_Some)
next
  assume "q \<notin> set (roles c) \<and> (\<forall>role\<in>set (roles c). (role, q) \<notin> (inherits H)\<^sup>+)"
  then show "\<not> hasRole (new_PermissionManager H P c) q"
    by (auto simp: hasRole_iff closure_of_def cachedRoleHierarchy_new split: if_splits)
qed

theorem hasRole_decision_witness:
  "hasRole (new_PermissionManager RoleHierarchy RoleBasedPermissions
       \<lparr>roles = [MANAGER], permissions = []\<rparr>) USER \<and>
   cachedRoleHierarchy (new_PermissionManager RoleHierarchy RoleBasedPermissions
       \<lparr>roles = [MANAGER], permissions = []\<rparr>) MANAGER = Some {PREMIUM_USER, USER} \<and>
   SUPER_ADMIN \<notin> set [USER] \<and> (USER, SUPER_ADMIN) \<notin> (inherits RoleHierarchy)\<^sup>+ \<and>
   \<not> hasRole (new_PermissionManager RoleHierarchy RoleBasedPermissions
       \<lparr>roles = [USER], permissions = []\<rparr>) SUPER_ADMIN"
proof -
  let ?pm = "new_PermissionManager RoleHierarchy RoleBasedPermissions
       \<lparr>roles = [MANAGER], permissions = []\<rparr>"
  have m: "cachedRoleHierarchy ?pm MANAGER = Some {PREMIUM_USER, USER}"
    by code_simp
  have u: "(USER, SUPER_ADMIN) \<notin> (inherits RoleHierarchy)\<^sup>+"
    by (auto dest!: tranclD simp: inherits_def lookup_def RoleHierarchy_def)
  then have n: "SUPER_ADMIN \<notin> set (roles \<lparr>roles = [USER], permissions = ([] :: Permission list)\<rparr>) \<and>
      (\<forall>role\<in>set (roles \<lparr>roles = [USER], permissions = ([] :: Permission list)\<rparr>).
         (role, SUPER_ADMIN) \<notin> (inherits RoleHierarchy)\<^sup>+)"
    by simp
  from hasRole_decision [of ?pm USER SUPER_ADMIN
       "\<lparr>roles = [USER], permissions = []\<rparr>" RoleHierarchy RoleBasedPermissions] m n u
  show ?thesis by simp
qed

lemma maxRole_step_Some:
  "maxRole_step cache (Some m) r = Some (if r \<in> closure_of cache m then m else r)"
  by (simp add: maxRole_step_def closure_of_def split: option.split)

lemma foldl_maxRole_step:
  "foldl (maxRole_step cache) (Some m) rs = Some (maxRole_fold cache m rs)"
  unfolding maxRole_fold_def
  by (induction rs arbitrary: m) (simp_all add: maxRole_step_Some)

lemma maxRole_fold_seed_again: "maxRole_fold cache r0 (r0 # rest) = maxRole_fold cache r0 rest"
  by (simp add: maxRole_fold_def)

lemma cachedRoleHierarchy_run:
  "cachedRoleHierarchy (new_PermissionManager H P c) r =
     (if r \<in> set (keys H) then Some (fst (computeRoleHierarchy H r {})) else None)"
  by (simp add: new_PermissionManager_def Let_def fold_cache_set
      del: computeRoleHierarchy.simps)

lemma USER_closure_empty:
  "cachedRoleHierarchy (new_PermissionManager RoleHierarchy RoleBasedPermissions c) USER = Some {}"
proof -
  have "fst (computeRoleHierarchy RoleHierarchy USER {}) = {}"
    by code_simp
  then show ?thesis
    by (simp add: cachedRoleHierarchy_run keys_def RoleHierarchy_def
        del: computeRoleHierarchy.simps)
qed

text \<open>
  C5. For a non-empty role list \<open>r0 # rest\<close>, \<open>getMaxRole\<close> returns the result of the
  left-to-right fold seeded with \<open>r0\<close> in which the candidate is replaced by the next role
  exactly when the candidate's cached hierarchy closure does not contain that role. The
  fold may run over \<open>rest\<close> or, as \<open>reduce\<close> does, over the whole list: examining the
  seed again changes nothing. Under the shipped configuration a principal with the roles
  \<open>[USER, ADMIN]\<close> gets \<open>ADMIN\<close>.
\<close>

theorem getMaxRole_is_fold:
  "(roles (context' pm) = r0 # rest \<longrightarrow>
      getMaxRole pm = Some (maxRole_fold (cachedRoleHierarchy pm) r0 rest) \<and>
      getMaxRole pm = Some (maxRole_fold (cachedRoleHierarchy pm) r0 (r0 # rest))) \<and>
   getMaxRole (new_PermissionManager RoleHierarchy RoleBasedPermissions
      \<lparr>roles = [USER, ADMIN], permissions = ps\<rparr>) = Some ADMIN"
proof (intro conjI impI)
  assume "roles (context' pm) = r0 # rest"
  then show "getMaxRole pm = Some (maxRole_fold (cachedRoleHierarchy pm) r0 (r0 # rest))"
    by (simp add: getMaxRole_def foldl_maxRole_step del: foldl_Cons)
  then show "getMaxRole pm = Some (maxRole_fold (cachedRoleHierarchy pm) r0 rest)"
    by (simp only: maxRole_fold_seed_again)
next
  show "getMaxRole (new_PermissionManager RoleHierarchy RoleBasedPermissions
      \<lparr>roles = [USER, ADMIN], permissions = ps\<rparr>) = Some ADMIN"
    by (simp add: getMaxRole_def maxRole_step_def USER_closure_empty)
qed

theorem getMaxRole_is_fold_witness:
  "roles (context' (new_PermissionManager RoleHierarchy RoleBasedPermissions
      \<lparr>roles = [MANAGER, SUPER_ADMIN, USER], permissions = []\<rparr>)) = MANAGER # [SUPER_ADMIN, USER] \<and>
   getMaxRole (new_PermissionManager RoleHierarchy RoleBasedPermissions
      \<lparr>roles = [MANAGER, SUPER_ADMIN, USER], permissions = []\<rparr>)
     = Some (maxRole_fold (cachedRoleHierarchy (new_PermissionManager RoleHierarchy
          RoleBasedPermissions \<lparr>roles = [MANAGER, SUPER_ADMIN, USER], permissions = []\<rparr>))
          MANAGER [SUPER_ADMIN, USER]) \<and>
   getMaxRole (new_PermissionManager RoleHierarchy RoleBasedPermissions
      \<lparr>roles = [MANAGER, SUPER_ADMIN, USER], permissions = []\<rparr>) = Some SUPER_ADMIN"
proof -
  let ?pm = "new_PermissionManager RoleHierarchy RoleBasedPermissions
      \<lparr>roles = [MANAGER, SUPER_ADMIN, USER], permissions = []\<rparr>"
  have r: "roles (context' ?pm) = MANAGER # [SUPER_ADMIN, USER]"
    by simp
  have v: "maxRole_fold (cachedRoleHierarchy ?pm) MANAGER [SUPER_ADMIN, USER] = SUPER_ADMIN"
    by code_simp
  from getMaxRole_is_fold [of ?pm MANAGER "[SUPER_ADMIN, USER]" "[]"] r v
  show ?thesis by simp
qed

text \<open>
  C10. With an empty role list \<open>getMaxRole\<close> returns \<open>undefined\<close>, the seed
  \<open>roles[0]\<close>: the reduction has an initial value, so it does not raise on the empty
  array.
\<close>

theorem getMaxRole_empty:
  "roles (context' pm) = [] \<Longrightarrow> getMaxRole pm = None"
  by (simp add: getMaxRole_def)

theorem getMaxRole_empty_witness:
  "roles (context' (new_PermissionManager RoleHierarchy RoleBasedPermissions
      \<lparr>roles = [], permissions = [PRODUCT_READ]\<rparr>)) = [] \<and>
   getMaxRole (new_PermissionManager RoleHierarchy RoleBasedPermissions
      \<lparr>roles = [], permissions = [PRODUCT_READ]\<rparr>) = None"
proof -
  have r: "roles (context' (new_PermissionManager RoleHierarchy RoleBasedPermissions
      \<lparr>roles = [], permissions = [PRODUCT_READ]\<rparr>)) = []"
    by simp
  from getMaxRole_empty [OF r] r show ?thesis by blast
qed

text \<open>
  C7. \<open>hasPermissions\<close> holds exactly when \<open>hasPermission\<close> holds for every listed
  permission, \<open>hasAnyPermission\<close> exactly when it holds for at least one; on the empty
  list the first is true and the second false.
\<close>

theorem hasPermissions_all_any:
  "(hasPermissions pm ps \<longleftrightarrow> (\<forall>p\<in>set ps. hasPermission pm p)) \<and>
   (hasAnyPermission pm ps \<longleftrightarrow> (\<exists>p\<in>set ps. hasPermission pm p)) \<and>
   hasPermissions pm [] \<and> \<not> hasAnyPermission pm []"
  by (simp add: hasPermissions_def hasAnyPermission_def list_all_iff list_ex_iff)

theorem hasPermissions_all_any_witness:
  "hasPermission (new_PermissionManager RoleHierarchy RoleBasedPermissions
      \<lparr>roles = [ADMIN], permissions = []\<rparr>) PRODUCT_DELETE \<and>
   hasPermission (new_PermissionManager RoleHierarchy RoleBasedPermissions
      \<lparr>roles = [ADMIN], permissions = []\<rparr>) USER_DELETE \<and>
   hasPermissions (new_PermissionManager RoleHierarchy RoleBasedPermissions
      \<lparr>roles = [ADMIN], permissions = []\<rparr>) [PRODUCT_DELETE, USER_DELETE] \<and>
   hasAnyPermission (new_PermissionManager RoleHierarchy RoleBasedPermissions
      \<lparr>roles = [ADMIN], permissions = []\<rparr>) [PRODUCT_DELETE, USER_DELETE]"
proof -
  let ?pm = "new_PermissionManager RoleHierarchy RoleBasedPermissions
      \<lparr>roles = [ADMIN], permissions = []\<rparr>"
  have a: "hasPermission ?pm PRODUCT_DELETE" by code_simp
  have b: "hasPermission ?pm USER_DELETE" by code_simp
  from hasPermissions_all_any [of ?pm "[PRODUCT_DELETE, USER_DELETE]"] a b
  show ?thesis by simp
qed

lemma cachedRolePermissions_context:
  "cachedRolePermissions (new_PermissionManager H P c) =
   cachedRolePermissions (new_PermissionManager H P c')"
  by (simp add: new_PermissionManager_def Let_def)

lemma hasPermission_mono:
  assumes "hasPermission (new_PermissionManager H P c) p"
    and "set (roles c) \<subseteq> set (roles c')"
    and "set (permissions c) \<subseteq> set (permissions c')"
  shows "hasPermission (new_PermissionManager H P c') p"
  using assms cachedRolePermissions_context [of H P c c']
  by (auto simp: hasPermission_iff)

lemma set_insert_at: "set (take i xs @ x # drop i xs) = insert x (set xs)"
proof -
  have "set (take i xs) \<union> set (drop i xs) = set xs"
    by (metis append_take_drop_id set_append)
  then show ?thesis by auto
qed

text \<open>
  C9. \<open>hasPermission\<close> is monotonic in the context: if it is true for a context, it is
  true for the context with one more role, or with one more direct permission, inserted
  at any position of the list.
\<close>

theorem hasPermission_monotonic:
  assumes "hasPermission (new_PermissionManager H P c) p"
  shows "hasPermission (new_PermissionManager H P
           (c\<lparr>roles := take i (roles c) @ r # drop i (roles c)\<rparr>)) p \<and>
         hasPermission (new_PermissionManager H P
           (c\<lparr>permissions := take j (permissions c) @ q # drop j (permissions c)\<rparr>)) p"
proof
  show "hasPermission (new_PermissionManager H P
           (c\<lparr>roles := take i (roles c) @ r # drop i (roles c)\<rparr>)) p"
    by (rule hasPermission_mono [OF assms]) (auto simp: set_insert_at simp del: set_append)
  show "hasPermission (new_PermissionManager H P
           (c\<lparr>permissions := take j (permissions c) @ q # drop j (permissions c)\<rparr>)) p"
    by (rule hasPermission_mono [OF assms]) (auto simp: set_insert_at simp del: set_append)
qed

theorem hasPermission_monotonic_witness:
  "hasPermission (new_PermissionManager RoleHierarchy RoleBasedPermissions
      \<lparr>roles = [USER], permissions = [PRODUCT_REVIEW]\<rparr>) PRODUCT_READ \<and>
   hasPermission (new_PermissionManager RoleHierarchy RoleBasedPermissions
      \<lparr>roles = [ADMIN, USER], permissions = [PRODUCT_REVIEW]\<rparr>) PRODUCT_READ \<and>
   hasPermission (new_PermissionManager RoleHierarchy RoleBasedPermissions
      \<lparr>roles = [USER], permissions = [PRODUCT_REVIEW, USER_READ]\<rparr>) PRODUCT_READ"
proof -
  have h: "hasPermission (new_PermissionManager RoleHierarchy RoleBasedPermissions
      \<lparr>roles = [USER], permissions = [PRODUCT_REVIEW]\<rparr>) PRODUCT_READ"
    by code_simp
  from hasPermission_monotonic [OF h, of 0 ADMIN 1 USER_READ] h
  show ?thesis by simp
qed

end
